theory Spec2Isabelle
  imports Main
begin

section \<open>Identity reconciliation: the contacts table and the identify endpoint\<close>

text \<open>
  The development embeds \<^verbatim>\<open>main.py\<close>: the \<^verbatim>\<open>Contact\<close> table, the request model
  \<^verbatim>\<open>ContactIn\<close> with its validator, and the handler \<^verbatim>\<open>identify\<close>.

  What the handler takes from its surroundings is made explicit:
  \<^item> the table is the list of its rows in insertion order; a query without
    \<^verbatim>\<open>ORDER BY\<close> returns the matching rows in that order (the handler never updates or
    deletes a row, so the heap keeps the order of insertion);
  \<^item> \<^verbatim>\<open>id\<close> is the integer primary key: an insert that the server runs draws it
    from the table's sequence, which keeps the advance also when the transaction fails,
    and the insert is refused when the key is already taken;
  \<^item> \<^verbatim>\<open>datetime.utcnow\<close>, the column default of \<^verbatim>\<open>created_at\<close> and
    \<^verbatim>\<open>updated_at\<close>, is read once for each of the two columns; the two readings are
    inputs of a call;
  \<^item> each access to the database may raise; which of them raise in a call is an input of
    the call;
  \<^item> \<^verbatim>\<open>list(set(...))\<close> gives the elements of a set in an order fixed by the hash
    seed of the process, which is no input of the handler: the response keeps the set.
\<close>

subsection \<open>Data model\<close>

text \<open>
  \<^verbatim>\<open>class Contact(Base)\<close>. Timestamps are points of a linear order (microseconds
  as natural numbers); \<^verbatim>\<open>created_at\<close> and \<^verbatim>\<open>updated_at\<close> have a value in every
  row, as the column defaults give them one in every row the handler inserts. The
  precedence is the string of the column. The field \<^verbatim>\<open>id\<close> is written \<open>id'\<close>.
\<close>

record contact =
  id' :: nat
  email :: "string option"
  phone_number :: "string option"
  linked_id :: "nat option"
  link_precedence :: string
  created_at :: nat
  updated_at :: nat
  deleted_at :: "nat option"

text \<open>\<^verbatim>\<open>class ContactIn(BaseModel)\<close>, after validation.\<close>

record contact_in =
  in_email :: "string option"
  in_phone_number :: "string option"

text \<open>The table \<^verbatim>\<open>contacts\<close> and the sequence behind its primary key.\<close>

record store =
  rows :: "contact list"
  next_id :: nat

text \<open>
  The accesses to the database in one call: the \<^verbatim>\<open>SELECT\<close> of
  \<^verbatim>\<open>session.query(...).all()\<close>; the \<^verbatim>\<open>INSERT\<close> that \<^verbatim>\<open>session.commit()\<close>
  flushes, which raises before the server runs it when the connection fails; the
  \<^verbatim>\<open>COMMIT\<close> that follows it; and the reads after the commit
  (\<^verbatim>\<open>session.refresh\<close>).
\<close>

datatype store_op = Query | Insert | Commit | Refresh

record env =
  fails :: "store_op \<Rightarrow> bool"
  utcnow_created :: nat
  utcnow_updated :: nat

text \<open>
  What the caller can get instead of a response: the validation failure of the request
  model, and \<^verbatim>\<open>HTTPException(status_code=500, detail="Internal server error")\<close>,
  whose text is a constant.
\<close>

datatype error = ValidationError | InternalServerError

text \<open>The dictionary under the key \<^verbatim>\<open>"contact"\<close> of the response.\<close>

record cluster_view =
  primaryContactId :: nat
  emails :: "string set"
  phoneNumbers :: "string set"
  secondaryContactIds :: "nat list"

subsection \<open>Request validation\<close>

text \<open>
  \<^verbatim>\<open>validate_email_or_phone_number\<close> raises \<^verbatim>\<open>ValueError\<close> when both values are
  \<^verbatim>\<open>None\<close>; inside the root validator that is a validation error of the model.
\<close>

definition validate_email_or_phone_number ::
  "string option \<Rightarrow> string option \<Rightarrow> error + unit" where
  "validate_email_or_phone_number em ph =
     (if em = None \<and> ph = None then Inl ValidationError else Inr ())"

definition check_email_or_phone_number ::
  "string option \<times> string option \<Rightarrow> error + (string option \<times> string option)" where
  "check_email_or_phone_number values =
     (case validate_email_or_phone_number (fst values) (snd values) of
        Inl e \<Rightarrow> Inl e
      | Inr _ \<Rightarrow> Inr values)"

text \<open>
  Building a \<^verbatim>\<open>ContactIn\<close>: the root validator runs first (\<^verbatim>\<open>pre=True\<close>), then
  the fields are validated. \<^verbatim>\<open>EmailStr\<close> belongs to the validation library; it is
  the parameter \<open>email_str\<close>, which gives the accepted (normalised) address or nothing.
\<close>

definition ContactIn ::
  "(string \<Rightarrow> string option) \<Rightarrow> string option \<times> string option \<Rightarrow> error + contact_in" where
  "ContactIn email_str values =
     (case check_email_or_phone_number values of
        Inl e \<Rightarrow> Inl e
      | Inr (em, ph) \<Rightarrow>
          (case em of
             None \<Rightarrow> Inr \<lparr>in_email = None, in_phone_number = ph\<rparr>
           | Some s \<Rightarrow>
               (case email_str s of
                  None \<Rightarrow> Inl ValidationError
                | Some s' \<Rightarrow> Inr \<lparr>in_email = Some s', in_phone_number = ph\<rparr>)))"

subsection \<open>The handler\<close>

text \<open>
  The filter \<^verbatim>\<open>or_(Contact.email == contact_in.email, Contact.phone_number ==
  contact_in.phone_number)\<close>. Comparing a column with \<^verbatim>\<open>None\<close> is rendered as
  \<^verbatim>\<open>IS NULL\<close>, and a \<^verbatim>\<open>NULL\<close> column is equal to no string: on each side this is
  equality of optional values.
\<close>

definition matches :: "contact_in \<Rightarrow> contact \<Rightarrow> bool" where
  "matches ci c = (email c = in_email ci \<or> phone_number c = in_phone_number ci)"

definition query_contacts :: "store \<Rightarrow> contact_in \<Rightarrow> contact list" where
  "query_contacts st ci = filter (matches ci) (rows st)"

text \<open>
  \<^verbatim>\<open>min(existing_contacts, key=lambda x: x.created_at)\<close> over a non-empty list, given
  as its head and tail: the first element with the least key.
\<close>

fun min_created_at :: "contact \<Rightarrow> contact list \<Rightarrow> contact" where
  "min_created_at m [] = m"
| "min_created_at m (c # cs) =
     min_created_at (if created_at c < created_at m then c else m) cs"

text \<open>
  The test of \<^verbatim>\<open>any(c.email == contact_in.email and c.phone_number ==
  contact_in.phone_number ...)\<close>: Python's equality, where \<^verbatim>\<open>None == None\<close> holds.
\<close>

definition same_pair :: "contact_in \<Rightarrow> contact \<Rightarrow> bool" where
  "same_pair ci c = (email c = in_email ci \<and> phone_number c = in_phone_number ci)"

text \<open>
  \<^verbatim>\<open>session.add\<close>, \<^verbatim>\<open>session.commit\<close>: one row is inserted, with the next key and
  the two clock readings, or the commit raises and the rows are as before. When the
  insert does not reach the server, the sequence is as before too; when the server
  refuses the key or the \<^verbatim>\<open>COMMIT\<close> fails, the key that was drawn is spent.
\<close>

definition add_commit ::
  "env \<Rightarrow> store \<Rightarrow> contact_in \<Rightarrow> nat option \<Rightarrow> string \<Rightarrow> contact option \<times> store" where
  "add_commit ev st ci lnk prec =
     (let c = \<lparr>id' = next_id st, email = in_email ci, phone_number = in_phone_number ci,
                linked_id = lnk, link_precedence = prec,
                created_at = utcnow_created ev, updated_at = utcnow_updated ev,
                deleted_at = None\<rparr>
      in if fails ev Insert then (None, st)
         else if next_id st \<in> set (map id' (rows st)) \<or> fails ev Commit
         then (None, st\<lparr>next_id := Suc (next_id st)\<rparr>)
         else (Some c, st\<lparr>rows := rows st @ [c], next_id := Suc (next_id st)\<rparr>))"

text \<open>
  \<^verbatim>\<open>c.email for c in ... if c.email\<close>: the values that are neither \<^verbatim>\<open>None\<close> nor
  the empty string.
\<close>

definition truthy :: "string option \<Rightarrow> string list" where
  "truthy x = (case x of None \<Rightarrow> [] | Some s \<Rightarrow> (if s = [] then [] else [s]))"

definition response :: "contact \<Rightarrow> contact list \<Rightarrow> cluster_view" where
  "response primary_contact secondary_contacts =
     \<lparr>primaryContactId = id' primary_contact,
      emails = set (concat (map (\<lambda>c. truthy (email c)) (primary_contact # secondary_contacts))),
      phoneNumbers =
        set (concat (map (\<lambda>c. truthy (phone_number c)) (primary_contact # secondary_contacts))),
      secondaryContactIds = map id' secondary_contacts\<rparr>"

text \<open>
  \<^verbatim>\<open>identify\<close>. Any exception inside \<^verbatim>\<open>try\<close> reaches \<^verbatim>\<open>session.rollback()\<close> and
  the HTTP 500; a rollback after a commit that succeeded finds nothing to undo.
\<close>

definition identify :: "env \<Rightarrow> store \<Rightarrow> contact_in \<Rightarrow> (error + cluster_view) \<times> store" where
  "identify ev st ci =
     (if fails ev Query then (Inl InternalServerError, st)
      else
        (case query_contacts st ci of
           [] \<Rightarrow>
             (case add_commit ev st ci None ''primary'' of
                (None, st') \<Rightarrow> (Inl InternalServerError, st')
              | (Some new_contact, st') \<Rightarrow>
                  if fails ev Refresh then (Inl InternalServerError, st')
                  else
                    (Inr \<lparr>primaryContactId = id' new_contact,
                          emails = set (truthy (email new_contact)),
                          phoneNumbers = set (truthy (phone_number new_contact)),
                          secondaryContactIds = []\<rparr>, st'))
         | c0 # cs \<Rightarrow>
             (let existing_contacts = c0 # cs;
                  primary_contact = min_created_at c0 cs;
                  secondary_contacts =
                    filter (\<lambda>c. id' c \<noteq> id' primary_contact) existing_contacts
              in if \<not> list_ex (same_pair ci) existing_contacts then
                   (case add_commit ev st ci (Some (id' primary_contact)) ''secondary'' of
                      (None, st') \<Rightarrow> (Inl InternalServerError, st')
                    | (Some new_secondary_contact, st') \<Rightarrow>
                        if fails ev Refresh then (Inl InternalServerError, st')
                        else
                          (Inr (response primary_contact
                                  (secondary_contacts @ [new_secondary_contact])), st'))
                 else (Inr (response primary_contact secondary_contacts), st))))"

text \<open>
  The endpoint \<^verbatim>\<open>POST /identify\<close>: the body is validated into a \<^verbatim>\<open>ContactIn\<close>
  before the handler runs.
\<close>

definition post_identify ::
  "(string \<Rightarrow> string option) \<Rightarrow> env \<Rightarrow> store \<Rightarrow> string option \<times> string option \<Rightarrow>
     (error + cluster_view) \<times> store" where
  "post_identify email_str ev st values =
     (case ContactIn email_str values of
        Inl e \<Rightarrow> (Inl e, st)
      | Inr ci \<Rightarrow> identify ev st ci)"

text \<open>
  The handler's variable \<^verbatim>\<open>primary_contact\<close>, as a function of the table and the
  submission: the earliest-created contact among those the query returns.
\<close>

definition primary_contact :: "store \<Rightarrow> contact_in \<Rightarrow> contact option" where
  "primary_contact st ci =
     (case query_contacts st ci of [] \<Rightarrow> None | c0 # cs \<Rightarrow> Some (min_created_at c0 cs))"

subsection \<open>Tables the handler can be given\<close>

text \<open>
  The keys of a table come from its sequence: they ascend in insertion order and lie below
  the next value of the sequence. In particular no two rows have the same key, which the
  primary-key constraint demands of any table.
\<close>

definition store_wf :: "store \<Rightarrow> bool" where
  "store_wf st =
     (sorted_wrt (<) (map id' (rows st)) \<and> list_all (\<lambda>c. id' c < next_id st) (rows st))"

text \<open>A run of calls, each with its environment, threads the table through.\<close>

fun identify_all :: "store \<Rightarrow> (env \<times> contact_in) list \<Rightarrow> store" where
  "identify_all st [] = st"
| "identify_all st (x # xs) = identify_all (snd (identify (fst x) st (snd x))) xs"

subsection \<open>The vocabulary of the specification\<close>

text \<open>
  The specification speaks of clusters in two ways. As a relation on the stored contacts,
  a cluster is a class of the reflexive transitive closure of sharing an email or sharing
  a phone number. In the algorithm, the cluster of a contact is named by a key: its own
  when it is primary, the key its link points to when it is secondary.
\<close>

definition shares :: "contact \<Rightarrow> contact \<Rightarrow> bool" where
  "shares a b =
     ((\<exists>e. email a = Some e \<and> email b = Some e) \<or>
      (\<exists>p. phone_number a = Some p \<and> phone_number b = Some p))"

definition same_cluster :: "contact list \<Rightarrow> contact \<Rightarrow> contact \<Rightarrow> bool" where
  "same_cluster rs a b = ((a, b) \<in> {(x, y). x \<in> set rs \<and> y \<in> set rs \<and> shares x y}\<^sup>*)"


text \<open>Older: earlier by creation time, ties broken by the lower key.\<close>

definition older :: "contact \<Rightarrow> contact \<Rightarrow> bool" where
  "older p c =
     (created_at p < created_at c \<or> (created_at p = created_at c \<and> id' p \<le> id' c))"



text \<open>
  The cluster invariant of the specification: a cluster has one primary contact, without
  a link, and every other member is secondary and linked to that primary.
\<close>

definition one_primary_per_cluster :: "contact list \<Rightarrow> bool" where
  "one_primary_per_cluster rs =
     (\<forall>c\<in>set rs. \<exists>p\<in>set rs.
        same_cluster rs c p \<and> link_precedence p = ''primary'' \<and> linked_id p = None \<and>
        (\<forall>m\<in>set rs. same_cluster rs c m \<and> m \<noteq> p \<longrightarrow>
           link_precedence m = ''secondary'' \<and> linked_id m = Some (id' p)))"

text \<open>
  The part of it that speaks of single rows: a contact is primary without a link, or
  secondary with a link to another stored contact.
\<close>

definition links_resolve :: "contact list \<Rightarrow> bool" where
  "links_resolve rs =
     (\<forall>c\<in>set rs.
        (link_precedence c = ''primary'' \<and> linked_id c = None) \<or>
        (link_precedence c = ''secondary'' \<and>
         (\<exists>p\<in>set rs. linked_id c = Some (id' p) \<and> id' p \<noteq> id' c)))"

text \<open>
  The exact-pair match of the glossary: the fields that the submission supplies are equal
  to those of the contact.
\<close>

definition exact_pair_match :: "contact_in \<Rightarrow> contact \<Rightarrow> bool" where
  "exact_pair_match ci c =
     ((case in_email ci of None \<Rightarrow> True | Some e \<Rightarrow> email c = Some e) \<and>
      (case in_phone_number ci of None \<Rightarrow> True | Some p \<Rightarrow> phone_number c = Some p))"





text \<open>
  The contact of key \<open>pid\<close> is primary and is the oldest member of its cluster.
\<close>

definition primary_is_oldest :: "contact list \<Rightarrow> nat \<Rightarrow> bool" where
  "primary_is_oldest rs pid =
     (\<exists>p\<in>set rs. id' p = pid \<and> link_precedence p = ''primary'' \<and>
        (\<forall>c\<in>set rs. same_cluster rs p c \<longrightarrow> older p c))"

subsection \<open>Sample data\<close>

text \<open>An environment in which the database serves every access, at clock reading \<open>t\<close>.\<close>

definition ev_at :: "nat \<Rightarrow> env" where
  "ev_at t = \<lparr>fails = (\<lambda>_. False), utcnow_created = t, utcnow_updated = t\<rparr>"

text \<open>An environment in which the commit succeeds and the reads after it raise.\<close>

definition ev_refresh_fails :: "nat \<Rightarrow> env" where
  "ev_refresh_fails t =
     \<lparr>fails = (\<lambda>op. op = Refresh), utcnow_created = t, utcnow_updated = t\<rparr>"

text \<open>An environment in which every access to the database raises.\<close>

definition ev_down :: "nat \<Rightarrow> env" where
  "ev_down t = \<lparr>fails = (\<lambda>_. True), utcnow_created = t, utcnow_updated = t\<rparr>"

definition empty_store :: store where
  "empty_store = \<lparr>rows = [], next_id = 1\<rparr>"

definition submit :: "string \<Rightarrow> string \<Rightarrow> contact_in" where
  "submit e p = \<lparr>in_email = Some e, in_phone_number = Some p\<rparr>"

definition row :: "nat \<Rightarrow> string option \<Rightarrow> string option \<Rightarrow> nat option \<Rightarrow> string \<Rightarrow> nat \<Rightarrow> contact" where
  "row i e p l prec t =
     \<lparr>id' = i, email = e, phone_number = p, linked_id = l, link_precedence = prec,
      created_at = t, updated_at = t, deleted_at = None\<rparr>"

text \<open>One primary contact, as the first call on the empty table leaves it.\<close>

definition store_one :: store where
  "store_one =
     \<lparr>rows = [row 1 (Some ''a@x.io'') (Some ''111'') None ''primary'' 1], next_id = 2\<rparr>"

text \<open>Two primary contacts that share nothing.\<close>

definition store_two :: store where
  "store_two =
     \<lparr>rows = [row 1 (Some ''a@x.io'') (Some ''111'') None ''primary'' 1,
              row 2 (Some ''b@x.io'') (Some ''222'') None ''primary'' 2], next_id = 3\<rparr>"

text \<open>
  The same after the submission of the email of the first with the phone number of the
  second.
\<close>

definition store_bridged :: store where
  "store_bridged =
     \<lparr>rows = [row 1 (Some ''a@x.io'') (Some ''111'') None ''primary'' 1,
              row 2 (Some ''b@x.io'') (Some ''222'') None ''primary'' 2,
              row 3 (Some ''a@x.io'') (Some ''222'') (Some 1) ''secondary'' 3], next_id = 4\<rparr>"

text \<open>A primary contact and a secondary one that shares its phone number.\<close>

definition store_pair :: store where
  "store_pair =
     \<lparr>rows = [row 1 (Some ''a@x.io'') (Some ''111'') None ''primary'' 1,
              row 2 (Some ''b@x.io'') (Some ''111'') (Some 1) ''secondary'' 2], next_id = 3\<rparr>"

text \<open>One primary contact, created at a later clock reading.\<close>

definition store_late :: store where
  "store_late =
     \<lparr>rows = [row 1 (Some ''a@x.io'') (Some ''111'') None ''primary'' 5], next_id = 2\<rparr>"

text \<open>A primary contact and a secondary one that shares its email.\<close>

definition store_linked :: store where
  "store_linked =
     \<lparr>rows = [row 1 (Some ''a@x.io'') (Some ''111'') None ''primary'' 1,
              row 2 (Some ''a@x.io'') (Some ''222'') (Some 1) ''secondary'' 2], next_id = 3\<rparr>"

section \<open>Properties\<close>

subsection \<open>Auxiliary facts\<close>

lemma add_commit_rows:
  "add_commit ev st ci lnk prec = (Some c, st') \<Longrightarrow>
     st' = st\<lparr>rows := rows st @ [c], next_id := Suc (next_id st)\<rparr> \<and> id' c = next_id st \<and>
     email c = in_email ci \<and> phone_number c = in_phone_number ci \<and> linked_id c = lnk \<and>
     link_precedence c = prec \<and> created_at c = utcnow_created ev \<and>
     updated_at c = utcnow_updated ev \<and> deleted_at c = None \<and>
     next_id st \<notin> set (map id' (rows st)) \<and> \<not> fails ev Insert \<and> \<not> fails ev Commit"
  by (auto simp: add_commit_def Let_def split: if_splits)

lemma add_commit_None:
  "add_commit ev st ci lnk prec = (None, st') \<Longrightarrow>
     rows st' = rows st \<and> (next_id st' = next_id st \<or> next_id st' = Suc (next_id st))"
  by (auto simp: add_commit_def Let_def split: if_splits)

lemma add_commit_Some:
  "\<not> fails ev Insert \<Longrightarrow> \<not> fails ev Commit \<Longrightarrow> next_id st \<notin> set (map id' (rows st)) \<Longrightarrow>
     \<exists>c. add_commit ev st ci lnk prec = (Some c, st\<lparr>rows := rows st @ [c], next_id := Suc (next_id st)\<rparr>)"
  by (simp add: add_commit_def Let_def)

lemma min_created_at_in: "min_created_at m cs \<in> set (m # cs)"
  by (induction cs arbitrary: m) auto

lemma min_created_at_le:
  "c \<in> set (m # cs) \<Longrightarrow> created_at (min_created_at m cs) \<le> created_at c"
proof (induction cs arbitrary: m c)
  case Nil
  then show ?case by simp
next
  case (Cons x xs)
  let ?m' = "if created_at x < created_at m then x else m"
  have le: "created_at (min_created_at ?m' xs) \<le> created_at ?m'"
    using Cons.IH [where m = ?m' and c = ?m'] by simp
  show ?case
  proof (cases "c \<in> set xs")
    case True
    then show ?thesis using Cons.IH [where m = ?m' and c = c] by simp
  next
    case False
    with Cons.prems have "c = m \<or> c = x" by auto
    then show ?thesis using le by (auto split: if_splits)
  qed
qed

lemma min_created_at_first:
  "min_created_at m cs = m \<or> created_at (min_created_at m cs) < created_at m"
proof (induction cs arbitrary: m)
  case Nil
  then show ?case by simp
next
  case (Cons x xs)
  show ?case
    using Cons.IH [of x] Cons.IH [of m] by (auto split: if_splits)
qed


lemma min_created_at_tie:
  "sorted_wrt (<) (map id' (m # cs)) \<Longrightarrow> c \<in> set (m # cs) \<Longrightarrow>
     created_at c = created_at (min_created_at m cs) \<Longrightarrow> id' (min_created_at m cs) \<le> id' c"
proof (induction cs arbitrary: m)
  case Nil
  then show ?case by simp
next
  case (Cons x xs)
  show ?case
  proof (cases "created_at x < created_at m")
    case True
    have srt: "sorted_wrt (<) (map id' (x # xs))" using Cons.prems(1) by simp
    have "c \<noteq> m"
      using Cons.prems(3) True min_created_at_le [of x x xs] by auto
    then have "c \<in> set (x # xs)" using Cons.prems(2) by auto
    then show ?thesis using Cons.IH [OF srt] Cons.prems(3) True by simp
  next
    case False
    have srt: "sorted_wrt (<) (map id' (m # xs))" using Cons.prems(1) by auto
    show ?thesis
    proof (cases "c = x")
      case True
      have "min_created_at m xs = m"
        using min_created_at_first [of m xs] Cons.prems(3) False True by auto
      then show ?thesis using Cons.prems(1) True False by auto
    next
      case neq: False
      then have "c \<in> set (m # xs)" using Cons.prems(2) by auto
      then show ?thesis using Cons.IH [OF srt] Cons.prems(3) False by simp
    qed
  qed
qed

lemma min_created_at_oldest:
  assumes srt: "sorted_wrt (<) (map id' (m # cs))"
    and p: "p \<in> set (m # cs)" and oldest: "\<forall>c\<in>set (m # cs). older p c"
  shows "min_created_at m cs = p"
proof -
  let ?q = "min_created_at m cs"
  have q: "?q \<in> set (m # cs)" by (rule min_created_at_in)
  have le: "created_at ?q \<le> created_at p" by (rule min_created_at_le [OF p])
  have "older p ?q" using oldest q by blast
  then have eq: "created_at p = created_at ?q" and ids: "id' p \<le> id' ?q"
    using le by (auto simp: older_def)
  have "id' ?q \<le> id' p" by (rule min_created_at_tie [OF srt p eq])
  then have "id' ?q = id' p" using ids by simp
  moreover have "distinct (map id' (m # cs))"
    using srt strict_sorted_iff [of "map id' (m # cs)"] by simp
  ultimately show ?thesis using p q by (meson distinct_map inj_onD)
qed

lemma same_pair_matches: "same_pair ci c \<Longrightarrow> matches ci c"
  by (simp add: same_pair_def matches_def)

lemma list_ex_same_pair_query:
  "list_ex (same_pair ci) (query_contacts st ci) = list_ex (same_pair ci) (rows st)"
  by (auto simp: query_contacts_def list_ex_iff dest: same_pair_matches)


lemma query_subset: "set (query_contacts st ci) \<subseteq> set (rows st)"
  by (auto simp: query_contacts_def)

lemma store_wf_distinct: "store_wf st \<Longrightarrow> distinct (map id' (rows st))"
  using strict_sorted_iff [of "map id' (rows st)"] by (simp add: store_wf_def)


lemma store_wf_key_free: "store_wf st \<Longrightarrow> next_id st \<notin> set (map id' (rows st))"
  by (auto simp: store_wf_def list_all_iff)

lemma identify_rows_cases:
  "rows (snd (identify ev st ci)) = rows st \<or>
   (\<exists>c. rows (snd (identify ev st ci)) = rows st @ [c])"
  by (auto simp: identify_def Let_def split: list.splits prod.splits option.splits dest!: add_commit_rows add_commit_None)

lemma identify_Nil:
  assumes "\<not> fails ev Query" and "query_contacts st ci = []"
  shows "identify ev st ci =
           (case add_commit ev st ci None ''primary'' of
              (None, st') \<Rightarrow> (Inl InternalServerError, st')
            | (Some n, st') \<Rightarrow>
                if fails ev Refresh then (Inl InternalServerError, st')
                else (Inr \<lparr>primaryContactId = id' n, emails = set (truthy (email n)),
                           phoneNumbers = set (truthy (phone_number n)),
                           secondaryContactIds = []\<rparr>, st'))"
  using assms by (simp add: identify_def)

lemma identify_Cons:
  assumes "\<not> fails ev Query" and "query_contacts st ci = c0 # cs"
  shows "identify ev st ci =
           (if \<not> list_ex (same_pair ci) (c0 # cs) then
              (case add_commit ev st ci (Some (id' (min_created_at c0 cs))) ''secondary'' of
                 (None, st') \<Rightarrow> (Inl InternalServerError, st')
               | (Some n, st') \<Rightarrow>
                   if fails ev Refresh then (Inl InternalServerError, st')
                   else (Inr (response (min_created_at c0 cs)
                           (filter (\<lambda>c. id' c \<noteq> id' (min_created_at c0 cs)) (c0 # cs) @ [n])),
                         st'))
            else (Inr (response (min_created_at c0 cs)
                    (filter (\<lambda>c. id' c \<noteq> id' (min_created_at c0 cs)) (c0 # cs))), st))"
  using assms by (simp add: identify_def Let_def del: list_ex_Cons_iff filter.simps)

lemma identify_first_cases:
  assumes "identify ev st ci = (Inr v, st1)"
  shows "(query_contacts st ci = [] \<and>
          (\<exists>n. add_commit ev st ci None ''primary'' = (Some n, st1) \<and>
               v = \<lparr>primaryContactId = id' n, emails = set (truthy (email n)),
                    phoneNumbers = set (truthy (phone_number n)), secondaryContactIds = []\<rparr>)) \<or>
         (\<exists>c0 cs. query_contacts st ci = c0 # cs \<and> list_ex (same_pair ci) (c0 # cs) \<and> st1 = st \<and>
             v = response (min_created_at c0 cs)
                   (filter (\<lambda>c. id' c \<noteq> id' (min_created_at c0 cs)) (c0 # cs))) \<or>
         (\<exists>c0 cs n. query_contacts st ci = c0 # cs \<and> \<not> list_ex (same_pair ci) (c0 # cs) \<and>
             add_commit ev st ci (Some (id' (min_created_at c0 cs))) ''secondary'' = (Some n, st1) \<and>
             v = response (min_created_at c0 cs)
                   (filter (\<lambda>c. id' c \<noteq> id' (min_created_at c0 cs)) (c0 # cs) @ [n]))"
proof (cases "fails ev Query")
  case True
  then show ?thesis using assms by (simp add: identify_def)
next
  case False
  show ?thesis
  proof (cases "query_contacts st ci")
    case Nil
    then show ?thesis
      using assms identify_Nil [OF False Nil] by (auto split: prod.splits option.splits if_splits)
  next
    case (Cons c0 cs)
    show ?thesis
      using assms unfolding identify_Cons [OF False Cons] Cons
      by (auto simp del: list_ex_Cons_iff filter.simps split: prod.splits option.splits if_splits)
  qed
qed

lemma identify_no_write:
  assumes "\<not> fails ev Query" and "query_contacts st ci = c0 # cs"
    and "list_ex (same_pair ci) (c0 # cs)"
  shows "identify ev st ci =
           (Inr (response (min_created_at c0 cs)
                   (filter (\<lambda>c. id' c \<noteq> id' (min_created_at c0 cs)) (c0 # cs))), st)"
  using identify_Cons [OF assms(1,2)] assms(3) by (simp del: list_ex_Cons_iff filter.simps)

lemma identify_new_row:
  assumes "rows (snd (identify ev st ci)) = rows st @ [n]"
  shows "id' n = next_id st \<and> next_id st \<notin> set (map id' (rows st)) \<and>
         email n = in_email ci \<and> phone_number n = in_phone_number ci \<and>
         created_at n = utcnow_created ev \<and>
         (case primary_contact st ci of
            None \<Rightarrow> link_precedence n = ''primary'' \<and> linked_id n = None
          | Some p \<Rightarrow> link_precedence n = ''secondary'' \<and> linked_id n = Some (id' p))"
proof (cases "fails ev Query")
  case True
  then show ?thesis using assms by (simp add: identify_def)
next
  case False
  show ?thesis
  proof (cases "query_contacts st ci")
    case Nil
    then show ?thesis
      using assms identify_Nil [OF False Nil]
      by (auto simp: primary_contact_def split: prod.splits option.splits if_splits dest!: add_commit_rows add_commit_None)
  next
    case (Cons c0 cs)
    show ?thesis
      using assms unfolding identify_Cons [OF False Cons] primary_contact_def Cons
      by (auto simp del: list_ex_Cons_iff filter.simps split: prod.splits option.splits if_splits
          dest!: add_commit_rows add_commit_None)
  qed
qed

lemma primary_contact_in:
  "primary_contact st ci = Some p \<Longrightarrow> p \<in> set (query_contacts st ci)"
  using min_created_at_in by (auto simp: primary_contact_def split: list.splits)



lemma same_cluster_refl: "same_cluster rs a a"
  by (simp add: same_cluster_def)

lemma same_cluster_step:
  "same_cluster rs a b \<Longrightarrow> b \<in> set rs \<Longrightarrow> c \<in> set rs \<Longrightarrow> shares b c \<Longrightarrow> same_cluster rs a c"
  unfolding same_cluster_def by (erule rtrancl_into_rtrancl) simp

lemma identify_error_before_commit:
  "fails ev Query \<or> fails ev Insert \<or> fails ev Commit \<Longrightarrow>
     rows (snd (identify ev st ci)) = rows st"
  by (auto simp: identify_def add_commit_def Let_def split: list.splits)

lemma identify_error_is_generic:
  "fst (identify ev st ci) = Inl e \<Longrightarrow> e = InternalServerError"
  by (auto simp: identify_def Let_def split: list.splits prod.splits option.splits if_splits)


lemma query_ids_sorted:
  "store_wf st \<Longrightarrow> sorted_wrt (<) (map id' (query_contacts st ci))"
  by (simp add: store_wf_def query_contacts_def sorted_wrt_map sorted_wrt_filter)



subsection \<open>The sample tables are tables the handler builds\<close>

lemmas run_defs = identify_def query_contacts_def matches_def same_pair_def add_commit_def
  response_def truthy_def row_def submit_def ev_at_def Let_def

lemma store_one_reached:
  "identify_all empty_store [(ev_at 1, submit ''a@x.io'' ''111'')] = store_one"
  by (simp add: run_defs empty_store_def store_one_def)

lemma store_two_reached:
  "identify_all store_one [(ev_at 2, submit ''b@x.io'' ''222'')] = store_two"
  by (simp add: run_defs store_one_def store_two_def)

lemma store_bridged_reached:
  "identify_all store_two [(ev_at 3, submit ''a@x.io'' ''222'')] = store_bridged"
  by (simp add: run_defs store_two_def store_bridged_def)

lemma store_pair_reached:
  "identify_all store_one [(ev_at 2, submit ''b@x.io'' ''111'')] = store_pair"
  by (simp add: run_defs store_one_def store_pair_def)

lemma store_late_reached:
  "identify_all empty_store [(ev_at 5, submit ''a@x.io'' ''111'')] = store_late"
  by (simp add: run_defs empty_store_def store_late_def)

lemma store_linked_reached:
  "identify_all store_one [(ev_at 2, submit ''a@x.io'' ''222'')] = store_linked"
  by (simp add: run_defs store_one_def store_linked_def)

subsection \<open>Existing rows are never rewritten\<close>

text \<open>
  Claim C10. Whatever the call does (answer, or fail at any access to the database), the
  rows that were in the table before the call are still there, in place and with every
  field as it was: the table after the call is the table before it, followed by at most
  one new row. The handler inserts and never updates.
\<close>

theorem identify_keeps_existing_rows:
  "take (length (rows st)) (rows (snd (identify ev st ci))) = rows st \<and>
   length (rows (snd (identify ev st ci))) \<le> Suc (length (rows st))"
  using identify_rows_cases [of ev st ci] by auto

theorem identify_keeps_existing_rows_witness:
  "take (length (rows store_one))
     (rows (snd (identify (ev_at 2) store_one (submit ''a@x.io'' ''222'')))) = rows store_one \<and>
   length (rows (snd (identify (ev_at 2) store_one (submit ''a@x.io'' ''222''))))
     \<le> Suc (length (rows store_one))"
  by (rule identify_keeps_existing_rows)

subsection \<open>Validation\<close>

text \<open>
  Claim C8 as stated speaks of empty values. The validator tests for \<^verbatim>\<open>None\<close>: a
  request with no email and the empty string as phone number passes it. The handler runs
  and stores a contact; where the database is down, the caller gets the internal error,
  so the database is consulted.
\<close>

theorem empty_string_phone_is_accepted:
  "post_identify Some (ev_at 1) empty_store (None, Some []) =
     (Inr \<lparr>primaryContactId = 1, emails = {}, phoneNumbers = {}, secondaryContactIds = []\<rparr>,
      \<lparr>rows = [row 1 None (Some []) None ''primary'' 1], next_id = 2\<rparr>) \<and>
   post_identify Some (ev_down 1) empty_store (None, Some []) =
     (Inl InternalServerError, empty_store)"
  by (simp add: post_identify_def ContactIn_def check_email_or_phone_number_def
      validate_email_or_phone_number_def run_defs ev_down_def empty_store_def)

text \<open>
  Claim C8, amended. A request in which the email and the phone number are both absent is
  answered with the validation error, and the table is left as it was. The database is
  not consulted: the answer is the same in an environment where every access to it would
  raise, where a handler that reached the database would answer with the internal error
  instead.
\<close>

theorem both_absent_fails_validation:
  "post_identify email_str ev st (None, None) = (Inl ValidationError, st)"
  by (simp add: post_identify_def ContactIn_def check_email_or_phone_number_def
      validate_email_or_phone_number_def)

theorem both_absent_fails_validation_witness:
  "post_identify Some (ev_down 2) store_one (None, None) = (Inl ValidationError, store_one)"
  by (rule both_absent_fails_validation)

subsection \<open>No match: a new primary contact\<close>

text \<open>
  Claim C7. When the query returns no contact and the database serves the insert, the
  commit and the read after it, the call adds exactly one row: a contact with the next
  key, precedence primary, no link, and the submitted email and phone number. The
  response names that contact as primary; its email list holds the email of the contact
  and nothing else, its phone list the phone number of the contact and nothing else (a
  value that is absent or the empty string gives no entry); it has no secondary ids.
\<close>

theorem no_match_creates_primary:
  assumes "\<not> fails ev Query" and "query_contacts st ci = []"
    and "\<not> fails ev Insert" and "\<not> fails ev Commit"
    and "next_id st \<notin> set (map id' (rows st))" and "\<not> fails ev Refresh"
  shows "identify ev st ci =
           (Inr \<lparr>primaryContactId = next_id st,
                 emails = (case in_email ci of None \<Rightarrow> {}
                           | Some e \<Rightarrow> if e = [] then {} else {e}),
                 phoneNumbers = (case in_phone_number ci of None \<Rightarrow> {}
                                 | Some p \<Rightarrow> if p = [] then {} else {p}),
                 secondaryContactIds = []\<rparr>,
            st\<lparr>rows := rows st @
                   [\<lparr>id' = next_id st, email = in_email ci,
                     phone_number = in_phone_number ci, linked_id = None,
                     link_precedence = ''primary'', created_at = utcnow_created ev,
                     updated_at = utcnow_updated ev, deleted_at = None\<rparr>],
               next_id := Suc (next_id st)\<rparr>)"
  using assms
  by (cases "in_email ci"; cases "in_phone_number ci")
    (simp_all add: identify_def add_commit_def truthy_def Let_def)

theorem no_match_creates_primary_witness:
  "identify (ev_at 1) empty_store (submit ''a@x.io'' ''111'') =
     (Inr \<lparr>primaryContactId = 1, emails = {''a@x.io''}, phoneNumbers = {''111''},
           secondaryContactIds = []\<rparr>,
      \<lparr>rows = [row 1 (Some ''a@x.io'') (Some ''111'') None ''primary'' 1], next_id = 2\<rparr>)"
proof -
  have served: "\<not> fails (ev_at 1) Query" "\<not> fails (ev_at 1) Insert"
    "\<not> fails (ev_at 1) Commit" "\<not> fails (ev_at 1) Refresh"
    by (simp_all add: ev_at_def)
  have none: "query_contacts empty_store (submit ''a@x.io'' ''111'') = []"
    by (simp add: query_contacts_def empty_store_def)
  have free: "next_id empty_store \<notin> set (map id' (rows empty_store))"
    by (simp add: empty_store_def)
  show ?thesis
    using no_match_creates_primary [OF served(1) none served(2,3) free served(4)]
    by (simp add: empty_store_def submit_def row_def ev_at_def)
qed

subsection \<open>Resubmission\<close>




subsection \<open>A submission that touches two clusters\<close>




subsection \<open>Precedence and links of the stored contacts\<close>

text \<open>
  Claim C2 as stated fails on a table that three calls build from the empty one: the third
  submission ties two primary contacts into one cluster, and both stay primary.
\<close>

theorem bridged_cluster_has_two_primaries:
  "identify_all empty_store
     [(ev_at 1, submit ''a@x.io'' ''111''), (ev_at 2, submit ''b@x.io'' ''222''),
      (ev_at 3, submit ''a@x.io'' ''222'')] = store_bridged \<and>
   \<not> one_primary_per_cluster (rows store_bridged)"
proof -
  let ?a = "row 1 (Some ''a@x.io'') (Some ''111'') None ''primary'' 1"
  let ?b = "row 2 (Some ''b@x.io'') (Some ''222'') None ''primary'' 2"
  let ?c = "row 3 (Some ''a@x.io'') (Some ''222'') (Some 1) ''secondary'' 3"
  let ?rs = "rows store_bridged"
  have reached: "identify_all empty_store
     [(ev_at 1, submit ''a@x.io'' ''111''), (ev_at 2, submit ''b@x.io'' ''222''),
      (ev_at 3, submit ''a@x.io'' ''222'')] = store_bridged"
    by (simp add: run_defs empty_store_def store_bridged_def)
  have mem: "?a \<in> set ?rs" "?b \<in> set ?rs" "?c \<in> set ?rs"
    by (simp_all add: store_bridged_def)
  have "shares ?a ?c" "shares ?c ?b"
    by (simp_all add: shares_def row_def)
  then have ab: "same_cluster ?rs ?a ?b"
    using mem same_cluster_step same_cluster_refl by blast
  have prim: "link_precedence ?a \<noteq> ''secondary''" "link_precedence ?b \<noteq> ''secondary''"
    and neq: "?a \<noteq> ?b"
    by (simp_all add: row_def)
  have "False" if inv: "one_primary_per_cluster ?rs"
  proof -
    obtain p where p: "\<forall>m\<in>set ?rs. same_cluster ?rs ?a m \<and> m \<noteq> p \<longrightarrow>
        link_precedence m = ''secondary'' \<and> linked_id m = Some (id' p)"
      using inv mem(1) unfolding one_primary_per_cluster_def by blast
    have "?a = p" using p mem(1) same_cluster_refl prim(1) by blast
    moreover have "?b = p" using p mem(2) ab prim(2) by blast
    ultimately show False using neq by simp
  qed
  then show ?thesis using reached by blast
qed

text \<open>
  Claim C2, amended. If every stored contact is primary without a link, or secondary with
  a link to another stored contact, then this also holds after a call, whatever the call
  does.
\<close>

theorem identify_keeps_links_resolved:
  assumes "links_resolve (rows st)"
  shows "links_resolve (rows (snd (identify ev st ci)))"
proof -
  consider (same) "rows (snd (identify ev st ci)) = rows st"
    | (new) n where "rows (snd (identify ev st ci)) = rows st @ [n]"
    using identify_rows_cases [of ev st ci] by blast
  then show ?thesis
  proof cases
    case same
    then show ?thesis using assms by simp
  next
    case new
    note n = identify_new_row [OF new]
    have old: "(link_precedence c = ''primary'' \<and> linked_id c = None) \<or>
        (link_precedence c = ''secondary'' \<and>
         (\<exists>p\<in>set (rows st @ [n]). linked_id c = Some (id' p) \<and> id' p \<noteq> id' c))"
      if "c \<in> set (rows st)" for c
      using assms that unfolding links_resolve_def by fastforce
    have fresh: "(link_precedence n = ''primary'' \<and> linked_id n = None) \<or>
        (link_precedence n = ''secondary'' \<and>
         (\<exists>p\<in>set (rows st @ [n]). linked_id n = Some (id' p) \<and> id' p \<noteq> id' n))"
    proof (cases "primary_contact st ci")
      case None
      then show ?thesis using n by simp
    next
      case (Some p)
      then have "p \<in> set (rows st)"
        using primary_contact_in query_subset by blast
      moreover from this have "id' p \<noteq> id' n" using n by (metis image_eqI set_map)
      ultimately show ?thesis using n Some by auto
    qed
    show ?thesis
      unfolding links_resolve_def new using old fresh by auto
  qed
qed

theorem identify_keeps_links_resolved_witness:
  "links_resolve (rows (snd (identify (ev_at 3) store_two (submit ''a@x.io'' ''222''))))"
proof -
  have "links_resolve (rows store_two)"
    by (simp add: links_resolve_def store_two_def row_def)
  then show ?thesis by (rule identify_keeps_links_resolved)
qed

subsection \<open>When a secondary contact is created\<close>

text \<open>
  Claim C3 as stated takes a submission for a repeat when the fields it supplies are equal
  to those of a stored contact. The submission of the stored email alone, without a phone
  number, is such a repeat, and the call writes a secondary contact for it.
\<close>

theorem one_field_repeat_is_written:
  "list_ex (exact_pair_match \<lparr>in_email = Some ''a@x.io'', in_phone_number = None\<rparr>)
     (rows store_one) \<and>
   identify (ev_at 2) store_one \<lparr>in_email = Some ''a@x.io'', in_phone_number = None\<rparr> =
     (Inr \<lparr>primaryContactId = 1, emails = {''a@x.io''}, phoneNumbers = {''111''},
           secondaryContactIds = [2]\<rparr>,
      \<lparr>rows = [row 1 (Some ''a@x.io'') (Some ''111'') None ''primary'' 1,
               row 2 (Some ''a@x.io'') None (Some 1) ''secondary'' 2],
       next_id = 3\<rparr>)"
  by (simp add: exact_pair_match_def run_defs store_one_def)

text \<open>
  Claim C3, amended. Let the query return at least one contact, on a well-formed table,
  and the database serve the insert and the commit. If some stored contact has the email
  and the phone number of the submission, an absent value being equal to an absent value
  only, the call writes nothing. If none has, the call adds exactly one row: a secondary
  contact with the submitted email and phone number; and whenever a primary contact is
  among the contacts returned and is the oldest of them, the new contact is linked to it.
  So a submission that supplies a value where the matching contact has none creates a
  secondary contact, and a submission equal to a stored contact in both fields does not.
\<close>

theorem secondary_created_unless_same_pair:
  assumes wf: "store_wf st"
    and served: "\<not> fails ev Query" "\<not> fails ev Insert" "\<not> fails ev Commit"
    and matched: "query_contacts st ci = c0 # cs"
  shows "(list_ex (same_pair ci) (rows st) \<and> snd (identify ev st ci) = st) \<or>
         (\<not> list_ex (same_pair ci) (rows st) \<and>
          (\<exists>n. rows (snd (identify ev st ci)) = rows st @ [n] \<and>
               link_precedence n = ''secondary'' \<and>
               email n = in_email ci \<and> phone_number n = in_phone_number ci \<and>
               (\<forall>p\<in>set (c0 # cs).
                  link_precedence p = ''primary'' \<and> (\<forall>c\<in>set (c0 # cs). older p c) \<longrightarrow>
                  linked_id n = Some (id' p))))"
proof (cases "list_ex (same_pair ci) (rows st)")
  case True
  then have "list_ex (same_pair ci) (c0 # cs)"
    using list_ex_same_pair_query [of ci st] matched by simp
  then show ?thesis
    using identify_no_write [OF served(1) matched] True by simp
next
  case False
  then have no: "\<not> list_ex (same_pair ci) (c0 # cs)"
    using list_ex_same_pair_query [of ci st] matched by simp
  obtain n where n: "add_commit ev st ci (Some (id' (min_created_at c0 cs))) ''secondary'' =
      (Some n, st\<lparr>rows := rows st @ [n], next_id := Suc (next_id st)\<rparr>)"
    using add_commit_Some [OF served(2,3) store_wf_key_free [OF wf]] by blast
  have new: "rows (snd (identify ev st ci)) = rows st @ [n]"
    unfolding identify_Cons [OF served(1) matched] using no n
    by (simp del: list_ex_Cons_iff filter.simps)
  have srt: "sorted_wrt (<) (map id' (c0 # cs))"
    using query_ids_sorted [OF wf, of ci] matched by simp
  have "linked_id n = Some (id' p)"
    if "p \<in> set (c0 # cs)" "\<forall>c\<in>set (c0 # cs). older p c" for p
    using add_commit_rows [OF n] min_created_at_oldest [OF srt that] by simp
  then show ?thesis
    using False new add_commit_rows [OF n] by blast
qed

theorem secondary_created_unless_same_pair_witness:
  "query_contacts store_pair (submit ''c@x.io'' ''111'') =
     [row 1 (Some ''a@x.io'') (Some ''111'') None ''primary'' 1,
      row 2 (Some ''b@x.io'') (Some ''111'') (Some 1) ''secondary'' 2] \<and>
   \<not> list_ex (same_pair (submit ''c@x.io'' ''111'')) (rows store_pair) \<and>
   (\<exists>n. rows (snd (identify (ev_at 3) store_pair (submit ''c@x.io'' ''111''))) =
          rows store_pair @ [n] \<and>
        link_precedence n = ''secondary'' \<and> linked_id n = Some 1 \<and>
        email n = Some ''c@x.io'' \<and> phone_number n = Some ''111'')"
proof -
  let ?a = "row 1 (Some ''a@x.io'') (Some ''111'') None ''primary'' 1"
  let ?b = "row 2 (Some ''b@x.io'') (Some ''111'') (Some 1) ''secondary'' 2"
  let ?ci = "submit ''c@x.io'' ''111''"
  have wf: "store_wf store_pair"
    by (simp add: store_wf_def store_pair_def row_def)
  have served: "\<not> fails (ev_at 3) Query" "\<not> fails (ev_at 3) Insert"
    "\<not> fails (ev_at 3) Commit"
    by (simp_all add: ev_at_def)
  have m: "query_contacts store_pair ?ci = ?a # [?b]"
    by (simp add: query_contacts_def matches_def store_pair_def row_def submit_def)
  have new: "\<not> list_ex (same_pair ?ci) (rows store_pair)"
    by (simp add: same_pair_def store_pair_def row_def submit_def)
  have oldest: "link_precedence ?a = ''primary'' \<and> (\<forall>c\<in>set (?a # [?b]). older ?a c)"
    by (simp add: older_def row_def)
  obtain n where n: "rows (snd (identify (ev_at 3) store_pair ?ci)) = rows store_pair @ [n]"
    "link_precedence n = ''secondary''"
    "email n = in_email ?ci" "phone_number n = in_phone_number ?ci"
    "\<forall>p\<in>set (?a # [?b]).
       link_precedence p = ''primary'' \<and> (\<forall>c\<in>set (?a # [?b]). older p c) \<longrightarrow>
       linked_id n = Some (id' p)"
    using secondary_created_unless_same_pair [OF wf served m] new by blast
  have "linked_id n = Some (id' ?a)"
    using n(5) oldest by (meson list.set_intros(1))
  then have "linked_id n = Some 1" by (simp add: row_def)
  moreover have "email n = Some ''c@x.io''" "phone_number n = Some ''111''"
    using n(3,4) by (simp_all add: submit_def)
  ultimately show ?thesis using m new n(1,2) by blast
qed

subsection \<open>What the response lists\<close>




subsection \<open>The contact that the response names as primary\<close>

text \<open>
  Claim C5 as stated fails after two clusters have been tied together: a submission that
  matches only the younger primary contact is answered with its key, while the older
  primary contact is a member of the same cluster.
\<close>

theorem primary_id_not_oldest_of_cluster:
  "fst (identify (ev_at 4) store_bridged (submit ''b@x.io'' ''999'')) =
     Inr \<lparr>primaryContactId = 2, emails = {''b@x.io''}, phoneNumbers = {''222'', ''999''},
          secondaryContactIds = [4]\<rparr> \<and>
   \<not> primary_is_oldest
       (rows (snd (identify (ev_at 4) store_bridged (submit ''b@x.io'' ''999'')))) 2"
proof -
  let ?a = "row 1 (Some ''a@x.io'') (Some ''111'') None ''primary'' 1"
  let ?b = "row 2 (Some ''b@x.io'') (Some ''222'') None ''primary'' 2"
  let ?c = "row 3 (Some ''a@x.io'') (Some ''222'') (Some 1) ''secondary'' 3"
  let ?d = "row 4 (Some ''b@x.io'') (Some ''999'') (Some 2) ''secondary'' 4"
  let ?rs = "[?a, ?b, ?c, ?d]"
  have run: "identify (ev_at 4) store_bridged (submit ''b@x.io'' ''999'') =
      (Inr \<lparr>primaryContactId = 2, emails = {''b@x.io''}, phoneNumbers = {''222'', ''999''},
            secondaryContactIds = [4]\<rparr>, \<lparr>rows = ?rs, next_id = 5\<rparr>)"
    by (simp add: run_defs store_bridged_def)
  have "shares ?b ?c" "shares ?c ?a"
    by (simp_all add: shares_def row_def)
  then have ba: "same_cluster ?rs ?b ?a"
    using same_cluster_step [of ?rs ?b ?b ?c] same_cluster_step [of ?rs ?b ?c ?a]
      same_cluster_refl [of ?rs ?b] by simp
  have young: "\<not> older ?b ?a"
    by (simp add: older_def row_def)
  have only: "p = ?b" if "p \<in> set ?rs" "id' p = 2" for p
    using that by (auto simp: row_def)
  have "False" if inv: "primary_is_oldest ?rs 2"
  proof -
    obtain p where p: "p \<in> set ?rs" "id' p = 2"
      "\<forall>c\<in>set ?rs. same_cluster ?rs p c \<longrightarrow> older p c"
      using inv unfolding primary_is_oldest_def by blast
    have "p = ?b" by (rule only [OF p(1,2)])
    then have "older ?b ?a" using p(3) ba by simp
    then show False using young by simp
  qed
  then show ?thesis unfolding run by auto
qed

text \<open>
  Claim C5, amended. When a call on a well-formed table returns a view: if the query
  returned nothing, the primary id is the key of the contact the call created, which is
  primary and has no link; otherwise the primary id is the key of one of the contacts
  that the query returned, and whenever a primary contact is among them and is the oldest
  of them (by creation time, ties broken by the lower key), the primary id is its key.
\<close>

theorem primary_id_is_oldest_matched_primary:
  assumes wf: "store_wf st" and ret: "identify ev st ci = (Inr v, st')"
  shows "(query_contacts st ci = [] \<and>
          (\<exists>n. rows st' = rows st @ [n] \<and> id' n = primaryContactId v \<and>
               link_precedence n = ''primary'' \<and> linked_id n = None)) \<or>
         (primaryContactId v \<in> set (map id' (query_contacts st ci)) \<and>
          (\<forall>p\<in>set (query_contacts st ci).
             link_precedence p = ''primary'' \<and>
             (\<forall>c\<in>set (query_contacts st ci). older p c) \<longrightarrow>
             primaryContactId v = id' p))"
proof -
  have matched_case: "primaryContactId v \<in> set (map id' (query_contacts st ci)) \<and>
          (\<forall>p\<in>set (query_contacts st ci).
             link_precedence p = ''primary'' \<and>
             (\<forall>c\<in>set (query_contacts st ci). older p c) \<longrightarrow>
             primaryContactId v = id' p)"
    if q: "query_contacts st ci = c0 # cs"
      and v: "primaryContactId v = id' (min_created_at c0 cs)" for c0 cs
  proof -
    have srt: "sorted_wrt (<) (map id' (c0 # cs))"
      using query_ids_sorted [OF wf, of ci] q by simp
    have "min_created_at c0 cs = p"
      if "p \<in> set (c0 # cs)" "\<forall>c\<in>set (c0 # cs). older p c" for p
      by (rule min_created_at_oldest [OF srt that])
    moreover have "min_created_at c0 cs \<in> set (c0 # cs)" by (rule min_created_at_in)
    ultimately show ?thesis unfolding q v by (metis image_eqI set_map)
  qed
  consider
    (fresh) n where "query_contacts st ci = []"
      "add_commit ev st ci None ''primary'' = (Some n, st')"
      "v = \<lparr>primaryContactId = id' n, emails = set (truthy (email n)),
            phoneNumbers = set (truthy (phone_number n)), secondaryContactIds = []\<rparr>"
  | (matched) c0 cs where "query_contacts st ci = c0 # cs"
      "primaryContactId v = id' (min_created_at c0 cs)"
    using identify_first_cases [OF ret] by (auto simp: response_def)
  then show ?thesis
  proof cases
    case fresh
    then show ?thesis using add_commit_rows [OF fresh(2)] by simp
  next
    case matched
    then show ?thesis using matched_case by blast
  qed
qed

theorem primary_id_is_oldest_matched_primary_witness:
  "query_contacts store_bridged (submit ''a@x.io'' ''222'') =
     [row 1 (Some ''a@x.io'') (Some ''111'') None ''primary'' 1,
      row 2 (Some ''b@x.io'') (Some ''222'') None ''primary'' 2,
      row 3 (Some ''a@x.io'') (Some ''222'') (Some 1) ''secondary'' 3] \<and>
   identify (ev_at 4) store_bridged (submit ''a@x.io'' ''222'') =
     (Inr \<lparr>primaryContactId = 1, emails = {''a@x.io'', ''b@x.io''},
           phoneNumbers = {''111'', ''222''}, secondaryContactIds = [2, 3]\<rparr>,
      store_bridged) \<and>
   primaryContactId \<lparr>primaryContactId = 1, emails = {''a@x.io'', ''b@x.io''},
       phoneNumbers = {''111'', ''222''}, secondaryContactIds = [2, 3]\<rparr> =
     id' (row 1 (Some ''a@x.io'') (Some ''111'') None ''primary'' 1)"
proof -
  let ?a = "row 1 (Some ''a@x.io'') (Some ''111'') None ''primary'' 1"
  let ?b = "row 2 (Some ''b@x.io'') (Some ''222'') None ''primary'' 2"
  let ?c = "row 3 (Some ''a@x.io'') (Some ''222'') (Some 1) ''secondary'' 3"
  let ?ci = "submit ''a@x.io'' ''222''"
  let ?v = "\<lparr>primaryContactId = 1, emails = {''a@x.io'', ''b@x.io''},
       phoneNumbers = {''111'', ''222''}, secondaryContactIds = [2, 3]\<rparr>"
  have wf: "store_wf store_bridged"
    by (simp add: store_wf_def store_bridged_def row_def)
  have q: "query_contacts store_bridged ?ci = [?a, ?b, ?c]"
    by (simp add: query_contacts_def matches_def store_bridged_def row_def submit_def)
  have ret: "identify (ev_at 4) store_bridged ?ci = (Inr ?v, store_bridged)"
    by (simp add: run_defs store_bridged_def insert_commute)
  have oldest: "?a \<in> set (query_contacts store_bridged ?ci)"
    "link_precedence ?a = ''primary'' \<and>
     (\<forall>c\<in>set (query_contacts store_bridged ?ci). older ?a c)"
    unfolding q by (simp_all add: older_def row_def)
  have "query_contacts store_bridged ?ci \<noteq> []" using q by simp
  then have "primaryContactId ?v = id' ?a"
    using primary_id_is_oldest_matched_primary [OF wf ret] oldest by blast
  then show ?thesis using q ret by blast
qed

text \<open>
  Where the query returns secondary contacts only, the contact that the handler selects is
  a secondary one: the response names it, and the contact that the call creates is linked
  to it.
\<close>

lemma selected_contact_can_be_secondary:
  "identify (ev_at 3) store_linked (submit ''c@x.io'' ''222'') =
     (Inr \<lparr>primaryContactId = 2, emails = {''a@x.io'', ''c@x.io''}, phoneNumbers = {''222''},
           secondaryContactIds = [3]\<rparr>,
      \<lparr>rows = [row 1 (Some ''a@x.io'') (Some ''111'') None ''primary'' 1,
               row 2 (Some ''a@x.io'') (Some ''222'') (Some 1) ''secondary'' 2,
               row 3 (Some ''c@x.io'') (Some ''222'') (Some 2) ''secondary'' 3],
       next_id = 4\<rparr>)"
  by (simp add: run_defs store_linked_def insert_commute)

subsection \<open>Errors of the database\<close>

text \<open>
  Claim C9 at a call in which the commit succeeds and the read that follows it raises: the
  caller gets the internal error, whose text is a constant, and the table holds the row
  that the call inserted. (An error at the query, at the insert or at the commit leaves
  the rows of the table as they were: lemma \<open>identify_error_before_commit\<close>.)
\<close>

theorem refresh_error_leaves_the_insert:
  "identify (ev_refresh_fails 1) empty_store (submit ''a@x.io'' ''111'') =
     (Inl InternalServerError, store_one) \<and>
   rows empty_store = [] \<and>
   rows store_one = [row 1 (Some ''a@x.io'') (Some ''111'') None ''primary'' 1]"
  by (simp add: identify_def query_contacts_def add_commit_def ev_refresh_fails_def
      empty_store_def store_one_def row_def submit_def Let_def)

end
